theory Spec2Isabelle
  imports Main "HOL-Library.Word" "HOL-Library.AList"
begin

unbundle bit_operations_syntax

section \<open>Python values and exceptions\<close>

text \<open>
  Byte strings are lists of 8-bit words, Python integers are unbounded and modelled
  as \<open>int\<close>. Every exception the model functions can raise is a constructor of
  \<open>error\<close>; a function that can raise returns \<open>error + 'a\<close> with \<open>Inl\<close> for the
  exception.
\<close>

type_synonym byte = "8 word"
type_synonym bytes = "byte list"

datatype error =
    OverflowError
  | UnicodeEncodeError
  | TypeError
  | IndexError
  | StructError
  | OSError

text \<open>The \<open>n\<close> big-endian base-256 digits of a non-negative integer.\<close>

fun be_bytes :: "nat \<Rightarrow> int \<Rightarrow> bytes" where
  "be_bytes 0 v = []"
| "be_bytes (Suc n) v = be_bytes n (v div 256) @ [word_of_int (v mod 256)]"

text \<open>
  \<open>v.to_bytes(n, 'big')\<close>: OverflowError for a negative integer and for one that
  does not fit into \<open>n\<close> bytes.
\<close>

definition to_bytes :: "int \<Rightarrow> nat \<Rightarrow> error + bytes" where
  "to_bytes v n =
     (if v < 0 \<or> 2 ^ (8 * n) \<le> v then Inl OverflowError else Inr (be_bytes n v))"

text \<open>
  \<open>bytes(s, 'ascii')\<close>: one byte per character, UnicodeEncodeError when a character
  is outside the 7-bit range.
\<close>

definition ascii_encode :: "string \<Rightarrow> error + bytes" where
  "ascii_encode s =
     (if list_all (\<lambda>c. (of_char c :: nat) < 128) s
      then Inr (map of_char s) else Inl UnicodeEncodeError)"

text \<open>The integer a byte string denotes when read big-endian.\<close>

definition be_int :: "bytes \<Rightarrow> int" where
  "be_int bs = foldl (\<lambda>a b. a * 256 + uint b) 0 bs"

section \<open>Register encoder\<close>

subsection \<open>CRC-7\<close>

text \<open>
  Modelled from the spec: \<open>libscrc.crc7\<close> belongs to a library outside the
  repository. The specification describes it as the standard CRC-7 used by SD/MMC
  framing: generator polynomial \<open>x^7 + x^3 + 1\<close> (0x09), register initially zero,
  message bits fed most significant bit first, no final xor. The register is a 7-bit
  word, so a left shift drops the bit shifted out.
\<close>

definition crc7_bit :: "7 word \<Rightarrow> bool \<Rightarrow> 7 word" where
  "crc7_bit c b = (if bit c 6 \<noteq> b then push_bit 1 c XOR 0x09 else push_bit 1 c)"

definition crc7_byte :: "7 word \<Rightarrow> byte \<Rightarrow> 7 word" where
  "crc7_byte c x = foldl crc7_bit c (map (bit x) [7, 6, 5, 4, 3, 2, 1, 0])"

definition crc7 :: "bytes \<Rightarrow> int" where
  "crc7 input_bytes = uint (foldl crc7_byte 0 input_bytes)"

subsection \<open>Trailer and CID\<close>

text \<open>
  \<^verbatim>\<open>def crc_and_last_bit(input_bytes):\<close>
  \<^verbatim>\<open>    crc7 = libscrc.crc7(input_bytes)\<close>
  \<^verbatim>\<open>    trail = (crc7 << 1)\<close>
  \<^verbatim>\<open>    trail = trail | 0x00000001\<close>
  \<^verbatim>\<open>    trail = trail.to_bytes(1, 'big')\<close>
  \<^verbatim>\<open>    return trail\<close>
\<close>

definition crc_and_last_bit :: "bytes \<Rightarrow> error + bytes" where
  "crc_and_last_bit input_bytes =
     (let crc = crc7 input_bytes;
          trail = push_bit 1 crc;
          trail = trail OR 0x00000001
      in to_bytes trail 1)"

text \<open>
  Evaluation continues with the value of a step unless the step raises; the first
  exception, in the order of evaluation, is the outcome.

  \<^verbatim>\<open>def compute_CID(MID, OID, PNM, PRV, PSN, RSV, MDT):\<close>
  \<^verbatim>\<open>    RSV_MDT = RSV << 3 | MDT\<close>
  \<^verbatim>\<open>    partial_CID = MID.to_bytes(1, 'big') + OID.to_bytes(2, 'big') +\<close>
  \<^verbatim>\<open>                  bytes(PNM, 'ascii') + PRV.to_bytes(1,'big') +\<close>
  \<^verbatim>\<open>                  PSN.to_bytes(4, 'big') + RSV_MDT.to_bytes(2, 'big')\<close>
  \<^verbatim>\<open>    CID = partial_CID + crc_and_last_bit(partial_CID)\<close>
  \<^verbatim>\<open>    return CID\<close>

  In Python the shift binds tighter than the bitwise or.
\<close>

definition unless_raised :: "error + 'a \<Rightarrow> ('a \<Rightarrow> error + 'b) \<Rightarrow> error + 'b" where
  "unless_raised r k = (case r of Inl e \<Rightarrow> Inl e | Inr x \<Rightarrow> k x)"

definition compute_CID ::
  "int \<Rightarrow> int \<Rightarrow> string \<Rightarrow> int \<Rightarrow> int \<Rightarrow> int \<Rightarrow> int \<Rightarrow> error + bytes" where
  "compute_CID MID OID PNM PRV PSN RSV MDT =
     (let RSV_MDT = (push_bit 3 RSV) OR MDT in
      unless_raised (to_bytes MID 1) (\<lambda>mid.
      unless_raised (to_bytes OID 2) (\<lambda>oid.
      unless_raised (ascii_encode PNM) (\<lambda>pnm.
      unless_raised (to_bytes PRV 1) (\<lambda>prv.
      unless_raised (to_bytes PSN 4) (\<lambda>psn.
      unless_raised (to_bytes RSV_MDT 2) (\<lambda>rsv_mdt.
        let partial_CID = mid @ oid @ pnm @ prv @ psn @ rsv_mdt in
        unless_raised (crc_and_last_bit partial_CID) (\<lambda>trail.
          Inr (partial_CID @ trail)))))))))"

subsection \<open>CSD\<close>

text \<open>
  A \<open>bitarray\<close> is a list of bits, first bit first. \<open>tobytes\<close> packs eight bits
  per byte, most significant bit first (the default big-endian bit order), and fills
  the last byte with zero bits.
\<close>

type_synonym bitarray = "bool list"

text \<open>
  \<^verbatim>\<open>def compute_CSD(CSD_STRUCTURE, RSV1, ..., FILE_FORMAT, RSV6):\<close>
  \<^verbatim>\<open>    bitCSD = CSD_STRUCTURE + RSV1 + ... + FILE_FORMAT + RSV6\<close>
  \<^verbatim>\<open>    partial_CSD = bitCSD.tobytes()\<close>
  \<^verbatim>\<open>    CSD = partial_CSD + crc_and_last_bit(partial_CSD)\<close>
  \<^verbatim>\<open>    return CSD\<close>
\<close>

definition byte_of_bits :: "bool list \<Rightarrow> byte" where
  "byte_of_bits bs = foldl (\<lambda>a b. 2 * a + of_bool b) 0 bs"

function tobytes :: "bitarray \<Rightarrow> bytes" where
  "tobytes bits =
     (if bits = [] then []
      else byte_of_bits (take 8 (bits @ replicate 7 False)) # tobytes (drop 8 bits))"
  by pat_completeness auto
termination
  by (relation "measure length") auto

declare tobytes.simps [simp del]

definition compute_CSD ::
  "bitarray \<Rightarrow> bitarray \<Rightarrow> bitarray \<Rightarrow> bitarray \<Rightarrow> bitarray \<Rightarrow> bitarray \<Rightarrow> bitarray \<Rightarrow>
   bitarray \<Rightarrow> bitarray \<Rightarrow> bitarray \<Rightarrow> bitarray \<Rightarrow> bitarray \<Rightarrow> bitarray \<Rightarrow> bitarray \<Rightarrow>
   bitarray \<Rightarrow> bitarray \<Rightarrow> bitarray \<Rightarrow> bitarray \<Rightarrow> bitarray \<Rightarrow> bitarray \<Rightarrow> bitarray \<Rightarrow>
   bitarray \<Rightarrow> bitarray \<Rightarrow> bitarray \<Rightarrow> bitarray \<Rightarrow> bitarray \<Rightarrow> bitarray \<Rightarrow> bitarray \<Rightarrow>
   bitarray \<Rightarrow> error + bytes" where
  "compute_CSD CSD_STRUCTURE RSV1 TAAC NSAC TRANS_SPEED CCC READ_BL_LEN READ_BL_PARTIAL
     WRITE_BLK_MISALIGN READ_BLK_MISALIGN DSR_IMP RSV2 C_SIZE RSV3 ERASE_BLK_EN
     SECTOR_SIZE WP_GRP_SIZE WP_GRP_ENABLE RSV4 R2W_FACTOR WRITE_BL_LEN WRITE_BL_LEN2
     RSV5 FILE_FORMAT_GRP COPY PERM_WRITE_PROTECT TMP_WRITE_PROTECT FILE_FORMAT RSV6 =
     (let bitCSD = CSD_STRUCTURE @ RSV1 @ TAAC @ NSAC @ TRANS_SPEED @ CCC @ READ_BL_LEN
            @ READ_BL_PARTIAL @ WRITE_BLK_MISALIGN @ READ_BLK_MISALIGN @ DSR_IMP @ RSV2
            @ C_SIZE @ RSV3 @ ERASE_BLK_EN @ SECTOR_SIZE @ WP_GRP_SIZE @ WP_GRP_ENABLE
            @ RSV4 @ R2W_FACTOR @ WRITE_BL_LEN @ WRITE_BL_LEN2 @ RSV5 @ FILE_FORMAT_GRP
            @ COPY @ PERM_WRITE_PROTECT @ TMP_WRITE_PROTECT @ FILE_FORMAT @ RSV6;
          partial_CSD = tobytes bitCSD
      in case crc_and_last_bit partial_CSD of Inl e \<Rightarrow> Inl e
         | Inr trail \<Rightarrow> Inr (partial_CSD @ trail))"

text \<open>
  A call of \<open>compute_CSD\<close> with a sequence of positional arguments: the function has
  29 parameters and no defaults, so any other number of arguments is a TypeError.
\<close>

definition compute_CSD_call :: "bitarray list \<Rightarrow> error + bytes" where
  "compute_CSD_call args =
     (if length args = 29
      then compute_CSD (args ! 0) (args ! 1) (args ! 2) (args ! 3) (args ! 4) (args ! 5)
             (args ! 6) (args ! 7) (args ! 8) (args ! 9) (args ! 10) (args ! 11)
             (args ! 12) (args ! 13) (args ! 14) (args ! 15) (args ! 16) (args ! 17)
             (args ! 18) (args ! 19) (args ! 20) (args ! 21) (args ! 22) (args ! 23)
             (args ! 24) (args ! 25) (args ! 26) (args ! 27) (args ! 28)
      else Inl TypeError)"

subsection \<open>The register constants of \<open>SDModel\<close>\<close>

text \<open>
  \<open>frombytes\<close> appends the bits of each byte, most significant first; \<open>lastn n\<close> is
  the slice \<open>[-n:]\<close>.
\<close>

definition frombytes :: "bytes \<Rightarrow> bitarray" where
  "frombytes bs = concat (map (\<lambda>b. map (bit b) [7, 6, 5, 4, 3, 2, 1, 0]) bs)"

definition lastn :: "nat \<Rightarrow> 'a list \<Rightarrow> 'a list" where
  "lastn n xs = drop (length xs - n) xs"

text \<open>
  The CSD fields of the class in the order of the call in the class body:
  CSD\_STRUCTURE, RSV1, TAAC, NSAC, TRANS\_SPEED, CCC, READ\_BL\_LEN,
  READ\_BL\_PARTIAL, WRITE\_BLK\_MISALIGN, READ\_BLK\_MISALIGN, DSR\_IMP, RSV2,
  C\_SIZE, RSV3, ERASE\_BLK\_EN, SECTOR\_SIZE, WP\_GRP\_SIZE, WP\_GRP\_ENABLE, RSV4,
  R2W\_FACTOR, WRITE\_BL\_LEN, WRITE\_BL\_LEN2, RSV5, FILE\_FORMAT\_GRP, COPY,
  PERM\_WRITE\_PROTECT, TMP\_WRITE\_PROTECT, FILE\_FORMAT, RSV6. A field written
  \<open>bitarray('01')\<close> is the list of its bits; one filled by \<open>frombytes\<close> and cut
  with \<open>[-n:]\<close> is written so.
\<close>

definition SD_CSD_fields :: "bitarray list" where
  "SD_CSD_fields =
    [ [False, True],
      replicate 6 False,
      frombytes (be_bytes 1 0x0e),
      frombytes (be_bytes 1 0x00),
      frombytes (be_bytes 1 0x5a),
      lastn 12 (frombytes (be_bytes 2 0x5b5)),
      lastn 4 (frombytes (be_bytes 1 0x9)),
      [False],
      [False],
      [False],
      [False],
      replicate 6 False,
      lastn 22 (frombytes (be_bytes 3 0x00127F)),
      [False],
      [True],
      lastn 7 (frombytes (be_bytes 1 0x7f)),
      replicate 7 False,
      [False],
      [False, False],
      lastn 3 (frombytes (be_bytes 1 0x02)),
      lastn 4 (frombytes (be_bytes 1 0x09)),
      [False],
      replicate 5 False,
      [False],
      [False],
      [False],
      [False],
      [False, False],
      [False, False] ]"

text \<open>
  The widths of the 29 CSD fields as the comments of the class declare them, in the
  order of the parameters of \<open>compute_CSD\<close>.
\<close>

definition CSD_widths :: "nat list" where
  "CSD_widths =
     [2, 6, 8, 8, 8, 12, 4, 1, 1, 1, 1, 6, 22, 1, 1, 7, 7, 1, 2, 3, 4, 1, 5, 1, 1, 1, 1, 2, 2]"

text \<open>The class attributes \<open>CSD\<close> and \<open>CID\<close>.\<close>

definition SD_CSD :: "error + bytes" where
  "SD_CSD = compute_CSD_call SD_CSD_fields"

definition SD_CID :: "error + bytes" where
  "SD_CID = compute_CID 0x41 0x3432 ''SDCIT'' 0x30 0x12345678 0x0 0x112"

section \<open>Block store\<close>

text \<open>
  The class attribute \<open>disk\<close> is a Python dictionary. Its keys are the addresses
  passed to \<open>write_block\<close> (integers) and the values \<open>struct.unpack\<close> returns in
  \<open>import_from_dictionary\<close> (tuples of one integer); an integer never equals a
  tuple. A dictionary keeps its keys in insertion order and an assignment to an
  existing key keeps the key's place, which is what \<open>AList.update\<close> does on an
  association list.
\<close>

datatype key = IntKey int | TupleKey int

type_synonym disk = "(key \<times> bytes) list"

text \<open>\<^verbatim>\<open>disk = {}\<close>\<close>

definition empty_disk :: disk where
  "empty_disk = []"

text \<open>
  \<^verbatim>\<open>def write_block(cls, addr, content): cls.disk[addr] = content\<close>

  \<^verbatim>\<open>def read_block(cls, addr):\<close>
  \<^verbatim>\<open>    block = bytes(512)\<close>
  \<^verbatim>\<open>    if addr in cls.disk: block = cls.disk[addr]\<close>
  \<^verbatim>\<open>    return block\<close>

  \<^verbatim>\<open>def get_block_count(cls): return len(cls.disk.keys())\<close>

  \<^verbatim>\<open>def get_block_list(cls):\<close>
  \<^verbatim>\<open>    blocks = []\<close>
  \<^verbatim>\<open>    for addr in cls.disk.keys(): blocks.append(addr)\<close>
  \<^verbatim>\<open>    return blocks\<close>
\<close>

definition write_block :: "disk \<Rightarrow> key \<Rightarrow> bytes \<Rightarrow> disk" where
  "write_block d addr content = AList.update addr content d"

definition read_block :: "disk \<Rightarrow> key \<Rightarrow> bytes" where
  "read_block d addr =
     (let block = replicate 512 0
      in case map_of d addr of Some stored \<Rightarrow> stored | None \<Rightarrow> block)"

definition get_block_count :: "disk \<Rightarrow> int" where
  "get_block_count d = int (length (map fst d))"

definition get_block_list :: "disk \<Rightarrow> key list" where
  "get_block_list d = foldl (\<lambda>blocks addr. blocks @ [addr]) [] (map fst d)"

subsection \<open>Printing a block\<close>

definition hex_digit :: "nat \<Rightarrow> char" where
  "hex_digit n = (''0123456789abcdef'') ! n"

definition hex :: "bytes \<Rightarrow> string" where
  "hex bs = concat (map (\<lambda>b. [hex_digit (unat b div 16), hex_digit (unat b mod 16)]) bs)"

text \<open>
  \<open>re.sub("(.{32})", "\\1\n", s, 0, re.DOTALL)\<close>: a newline after every full group
  of 32 characters. \<open>re.sub("(.{2})", "\\1 ", s, 0)\<close>: a space after every pair of
  characters, where the dot does not match a newline, so a position whose pair
  would contain a newline is skipped.
\<close>

function sub_32 :: "string \<Rightarrow> string" where
  "sub_32 s =
     (if length s < 32 then s else take 32 s @ [CHR 0x0A] @ sub_32 (drop 32 s))"
  by pat_completeness auto
termination
  by (relation "measure length") auto

declare sub_32.simps [simp del]

fun sub_2 :: "string \<Rightarrow> string" where
  "sub_2 (a # b # s) =
     (if a \<noteq> CHR 0x0A \<and> b \<noteq> CHR 0x0A then a # b # CHR '' '' # sub_2 s
      else a # sub_2 (b # s))"
| "sub_2 s = s"

definition print_block :: "disk \<Rightarrow> key \<Rightarrow> string" where
  "print_block d addr =
     (case map_of d addr of
        Some block \<Rightarrow> sub_2 (sub_32 (hex block))
      | None \<Rightarrow> ''This block does not exist!'')"

subsection \<open>Files\<close>

text \<open>
  A path names a file with its content, no file, or a place where \<open>open\<close> fails
  (a missing directory, a directory, missing permissions). Opening for writing
  creates or truncates the file; \<open>write\<close> appends to it.
\<close>

datatype node = NoFile | File bytes | Denied

type_synonym filesys = "string \<Rightarrow> node"

definition open_wb :: "filesys \<Rightarrow> string \<Rightarrow> error + filesys" where
  "open_wb f path = (case f path of Denied \<Rightarrow> Inl OSError | _ \<Rightarrow> Inr (f(path := File [])))"

definition open_rb :: "filesys \<Rightarrow> string \<Rightarrow> error + bytes" where
  "open_rb f path = (case f path of File content \<Rightarrow> Inr content | _ \<Rightarrow> Inl OSError)"

definition file_write :: "filesys \<Rightarrow> string \<Rightarrow> bytes \<Rightarrow> filesys" where
  "file_write f path new =
     (case f path of File content \<Rightarrow> f(path := File (content @ new)) | _ \<Rightarrow> f)"

record sd_state =
  disk :: disk
  files :: filesys
  stdout :: "string list"

subsection \<open>Image export\<close>

text \<open>
  \<open>list.sort()\<close> on the keys: integers sort numerically, one-element tuples by their
  element, and comparing an integer with a tuple is a TypeError.
\<close>

fun is_int :: "key \<Rightarrow> bool" where
  "is_int (IntKey _) = True"
| "is_int (TupleKey _) = False"

fun key_val :: "key \<Rightarrow> int" where
  "key_val (IntKey i) = i"
| "key_val (TupleKey i) = i"

definition sort_keys :: "key list \<Rightarrow> error + key list" where
  "sort_keys ks =
     (if list_all is_int ks then Inr (map IntKey (sort (map key_val ks)))
      else if list_all (\<lambda>k. \<not> is_int k) ks then Inr (map TupleKey (sort (map key_val ks)))
      else Inl TypeError)"

text \<open>
  \<^verbatim>\<open>def export_to_file(cls, name):\<close>
  \<^verbatim>\<open>    path = './' + name\<close>
  \<^verbatim>\<open>    f = open(path, 'wb')\<close>
  \<^verbatim>\<open>    block_list = cls.get_block_list()\<close>
  \<^verbatim>\<open>    block_list.sort()\<close>
  \<^verbatim>\<open>    first_block = block_list[0]\<close>
  \<^verbatim>\<open>    last_block = block_list[-1]\<close>
  \<^verbatim>\<open>    for i in range(first_block, last_block + 1):\<close>
  \<^verbatim>\<open>        f.write(cls.read_block(i))\<close>
  \<^verbatim>\<open>    f.close()\<close>

  The file is opened, and so created or emptied, before anything can fail. An empty
  list fails at \<open>block_list[0]\<close>, tuple keys at \<open>last_block + 1\<close>.
\<close>

definition export_to_file :: "sd_state \<Rightarrow> string \<Rightarrow> (error + unit) \<times> sd_state" where
  "export_to_file s name =
     (let path = ''./'' @ name in
      case open_wb (files s) path of
        Inl e \<Rightarrow> (Inl e, s)
      | Inr f \<Rightarrow>
         (let s1 = s\<lparr>files := f\<rparr>;
              block_list = get_block_list (disk s)
          in (case sort_keys block_list of
                Inl e \<Rightarrow> (Inl e, s1)
              | Inr block_list \<Rightarrow>
                 (case block_list of
                    [] \<Rightarrow> (Inl IndexError, s1)
                  | first_block # _ \<Rightarrow>
                     (case (first_block, last block_list) of
                        (IntKey lo, IntKey hi) \<Rightarrow>
                          (Inr (), s1\<lparr>files :=
                             foldl (\<lambda>f i. file_write f path (read_block (disk s) (IntKey i)))
                               f [lo..hi]\<rparr>)
                      | _ \<Rightarrow> (Inl TypeError, s1))))))"

subsection \<open>Dictionary export and import\<close>

text \<open>
  \<open>struct.pack('>I', k)\<close> needs an integer in the unsigned 32-bit range;
  \<open>struct.unpack('>I', b)\<close> needs exactly four bytes and returns a tuple of one
  integer. Both raise \<open>struct.error\<close> otherwise.
\<close>

definition struct_pack_I :: "key \<Rightarrow> error + bytes" where
  "struct_pack_I k =
     (case k of
        IntKey i \<Rightarrow> if 0 \<le> i \<and> i < 2 ^ 32 then Inr (be_bytes 4 i) else Inl StructError
      | TupleKey _ \<Rightarrow> Inl StructError)"

definition struct_unpack_I :: "bytes \<Rightarrow> error + key" where
  "struct_unpack_I b = (if length b = 4 then Inr (TupleKey (be_int b)) else Inl StructError)"

text \<open>
  \<^verbatim>\<open>def export_as_dictionary(cls, name):\<close>
  \<^verbatim>\<open>    path = './' + name\<close>
  \<^verbatim>\<open>    f = open(path, 'wb')\<close>
  \<^verbatim>\<open>    for k, v in cls.disk.items():\<close>
  \<^verbatim>\<open>        f.write(struct.pack('>I', k))\<close>
  \<^verbatim>\<open>        f.write(v)\<close>
  \<^verbatim>\<open>    f.close()\<close>
\<close>

fun export_items :: "filesys \<Rightarrow> string \<Rightarrow> (key \<times> bytes) list \<Rightarrow> (error + unit) \<times> filesys" where
  "export_items f path [] = (Inr (), f)"
| "export_items f path ((k, v) # items) =
     (case struct_pack_I k of Inl e \<Rightarrow> (Inl e, f)
      | Inr packed \<Rightarrow> export_items (file_write (file_write f path packed) path v) path items)"

definition export_as_dictionary :: "sd_state \<Rightarrow> string \<Rightarrow> (error + unit) \<times> sd_state" where
  "export_as_dictionary s name =
     (let path = ''./'' @ name in
      case open_wb (files s) path of Inl e \<Rightarrow> (Inl e, s)
      | Inr f \<Rightarrow>
        (case export_items f path (disk s) of (r, f') \<Rightarrow> (r, s\<lparr>files := f'\<rparr>)))"

text \<open>
  \<^verbatim>\<open>def import_from_dictionary(cls, name):\<close>
  \<^verbatim>\<open>    path = './' + name\<close>
  \<^verbatim>\<open>    f = open(path, 'rb')\<close>
  \<^verbatim>\<open>    while f.readable():\<close>
  \<^verbatim>\<open>        a_bytes = f.read(4)\<close>
  \<^verbatim>\<open>        content = f.read(512)\<close>
  \<^verbatim>\<open>        addr = struct.unpack('>I', a_bytes)\<close>
  \<^verbatim>\<open>        cls.disk[addr] = content\<close>
  \<^verbatim>\<open>    f.close()\<close>

  The import loop runs \<open>while f.readable()\<close>, which is true for every file opened
  for reading, at the end of the file too. \<open>f.read(n)\<close> returns the next \<open>n\<close> bytes,
  or fewer when the file ends. The loop therefore ends only by the \<open>struct.error\<close>
  of unpacking fewer than four bytes; the entries stored before it stay in the
  dictionary.
\<close>

function import_loop :: "bytes \<Rightarrow> disk \<Rightarrow> (error + unit) \<times> disk" where
  "import_loop rest d =
     (let a_bytes = take 4 rest;
          content = take 512 (drop 4 rest)
      in case struct_unpack_I a_bytes of Inl e \<Rightarrow> (Inl e, d)
         | Inr addr \<Rightarrow> import_loop (drop 512 (drop 4 rest)) (AList.update addr content d))"
  by pat_completeness auto
termination
  by (relation "measure (\<lambda>(rest, d). length rest)")
     (auto simp: struct_unpack_I_def split: if_splits)

declare import_loop.simps [simp del]

definition import_from_dictionary :: "sd_state \<Rightarrow> string \<Rightarrow> (error + unit) \<times> sd_state" where
  "import_from_dictionary s name =
     (let path = ''./'' @ name in
      case open_rb (files s) path of Inl e \<Rightarrow> (Inl e, s)
      | Inr content \<Rightarrow>
        (case import_loop content (disk s) of (r, d) \<Rightarrow> (r, s\<lparr>disk := d\<rparr>)))"

subsection \<open>The operations of the class as a state machine\<close>

datatype op =
    WriteBlock key bytes
  | ReadBlock key
  | GetBlockCount
  | GetBlockList
  | PrintBlock key
  | ExportToFile string
  | ExportAsDictionary string
  | ImportFromDictionary string

datatype result = RNone | RBytes bytes | RInt int | RKeys "key list"

text \<open>
  One call on the class: its result or exception, and the state afterwards. The
  state is the class attribute and the environment, so it outlives an exception.
\<close>

fun step :: "sd_state \<Rightarrow> op \<Rightarrow> (error + result) \<times> sd_state" where
  "step s (WriteBlock addr content) =
     (Inr RNone, s\<lparr>disk := write_block (disk s) addr content\<rparr>)"
| "step s (ReadBlock addr) = (Inr (RBytes (read_block (disk s) addr)), s)"
| "step s GetBlockCount = (Inr (RInt (get_block_count (disk s))), s)"
| "step s GetBlockList = (Inr (RKeys (get_block_list (disk s))), s)"
| "step s (PrintBlock addr) =
     (Inr RNone, s\<lparr>stdout := stdout s @ [print_block (disk s) addr]\<rparr>)"
| "step s (ExportToFile name) =
     (case export_to_file s name of (r, s') \<Rightarrow> (map_sum id (\<lambda>_. RNone) r, s'))"
| "step s (ExportAsDictionary name) =
     (case export_as_dictionary s name of (r, s') \<Rightarrow> (map_sum id (\<lambda>_. RNone) r, s'))"
| "step s (ImportFromDictionary name) =
     (case import_from_dictionary s name of (r, s') \<Rightarrow> (map_sum id (\<lambda>_. RNone) r, s'))"

definition run :: "sd_state \<Rightarrow> op list \<Rightarrow> sd_state" where
  "run s ops = foldl (\<lambda>s op. snd (step s op)) s ops"

text \<open>
  The operations other than \<open>write_block\<close> and \<open>import_from_dictionary\<close>: the queries
  and the exports.
\<close>

fun is_query :: "op \<Rightarrow> bool" where
  "is_query (WriteBlock _ _) = False"
| "is_query (ImportFromDictionary _) = False"
| "is_query _ = True"

text \<open>The calls that can store something under a given key.\<close>

fun may_store :: "key \<Rightarrow> op \<Rightarrow> bool" where
  "may_store k (WriteBlock addr _) = (addr = k)"
| "may_store k (ImportFromDictionary _) = (\<not> is_int k)"
| "may_store k _ = False"

text \<open>The class as loaded, in a given file system: the dictionary is empty.\<close>

definition initial_state :: "filesys \<Rightarrow> sd_state" where
  "initial_state f = \<lparr>disk = empty_disk, files = f, stdout = []\<rparr>"

section \<open>Properties of the register encoder\<close>

subsection \<open>Integers and bytes\<close>

lemma length_be_bytes: "length (be_bytes n v) = n"
  by (induction n arbitrary: v) auto

lemma to_bytes_fits: "0 \<le> v \<Longrightarrow> v < 2 ^ (8 * n) \<Longrightarrow> to_bytes v n = Inr (be_bytes n v)"
  by (simp add: to_bytes_def)

lemma word_of_int_mod_256: "(word_of_int (v mod 256) :: byte) = word_of_int v"
  by (simp add: word_of_int_eq_iff take_bit_eq_mod)

lemma be_bytes_1: "be_bytes (Suc 0) v = [word_of_int v]"
  by (simp add: word_of_int_mod_256)

lemma uint_byte_of_int: "0 \<le> t \<Longrightarrow> t < 256 \<Longrightarrow> uint (word_of_int t :: byte) = t"
  by (simp add: uint_word_of_int_eq take_bit_int_eq_self)

lemma be_int_snoc: "be_int (bs @ [b]) = be_int bs * 256 + uint b"
  by (simp add: be_int_def)

lemma be_int_be_bytes: "0 \<le> v \<Longrightarrow> v < 2 ^ (8 * n) \<Longrightarrow> be_int (be_bytes n v) = v"
proof (induction n arbitrary: v)
  case 0
  then show ?case by (simp add: be_int_def)
next
  case (Suc n)
  have "v div 256 < 2 ^ (8 * n)"
  proof -
    have "v < 256 * 2 ^ (8 * n)" using Suc.prems by (simp add: power_add)
    then show ?thesis by linarith
  qed
  moreover have "0 \<le> v div 256" using Suc.prems by simp
  ultimately have "be_int (be_bytes n (v div 256)) = v div 256"
    using Suc.IH by blast
  moreover have "uint (word_of_int (v mod 256) :: byte) = v mod 256"
    by (rule uint_byte_of_int) simp_all
  ultimately show ?case
    by (simp add: be_int_snoc)
qed

lemma length_ascii_encode: "ascii_encode s = Inr bs \<Longrightarrow> length bs = length s"
  by (auto simp: ascii_encode_def split: if_splits)

subsection \<open>The trailer\<close>

lemma crc7_range: "0 \<le> crc7 bs \<and> crc7 bs < 128"
  using uint_lt2p [of "foldl crc7_byte 0 bs"] by (simp add: crc7_def)

lemma trail_eq: "push_bit 1 c OR (1::int) = 2 * c + 1"
  by (simp add: or_one_eq push_bit_eq_mult)

lemma trail_range: "0 \<le> push_bit 1 (crc7 p) OR 1 \<and> push_bit 1 (crc7 p) OR 1 < 256"
  using crc7_range [of p] unfolding trail_eq by simp

lemma crc_and_last_bit_eq:
  "crc_and_last_bit p = Inr [word_of_int (push_bit 1 (crc7 p) OR 1)]"
proof -
  let ?t = "push_bit 1 (crc7 p) OR 1"
  have "0 \<le> ?t \<and> ?t < 2 ^ (8 * Suc 0)"
    using trail_range [of p] by simp
  then have "to_bytes ?t (Suc 0) = Inr (be_bytes (Suc 0) ?t)"
    using to_bytes_fits by blast
  then show ?thesis
    unfolding crc_and_last_bit_def Let_def be_bytes_1 by simp
qed

lemma trail_uint:
  "uint (word_of_int (push_bit 1 (crc7 p) OR 1) :: byte) = push_bit 1 (crc7 p) OR 1"
  using trail_range [of p] uint_byte_of_int by blast

lemma trail_low_bit: "bit (word_of_int (push_bit 1 (crc7 p) OR 1) :: byte) 0"
  unfolding trail_eq by (simp add: bit_word_of_int_iff bit_0)

text \<open>
  The model of CRC-7 gives the check value of the CRC catalogue for CRC-7/MMC and the
  well-known trailer 0x95 of the SD command GO\_IDLE\_STATE.
\<close>

lemma crc7_check_value: "crc7 (map of_char ''123456789'') = 0x75"
  by code_simp

lemma crc7_cmd0: "crc_and_last_bit [0x40, 0, 0, 0, 0] = Inr [0x95]"
  by code_simp

text \<open>
  Claim C2. For every payload the trailer is the single byte whose value is
  \<open>(crc7 payload << 1) | 1\<close>, with \<open>crc7\<close> the CRC-7 of SD/MMC; no exception is
  possible, and equal payloads give the same trailer. The function reads nothing but
  its argument.
\<close>

theorem crc_and_last_bit_trailer:
  "\<exists>b. crc_and_last_bit payload = Inr [b]
       \<and> uint b = (push_bit 1 (crc7 payload)) OR 1
       \<and> (\<forall>q. q = payload \<longrightarrow> crc_and_last_bit q = crc_and_last_bit payload)"
  using crc_and_last_bit_eq [of payload] trail_uint [of payload] by simp

theorem crc_and_last_bit_trailer_witness:
  "crc_and_last_bit (map of_char ''123456789'') = Inr [0xEB]"
proof -
  obtain b where b: "crc_and_last_bit (map of_char ''123456789'') = Inr [b]"
      "uint b = (push_bit 1 (crc7 (map of_char ''123456789''))) OR 1"
    using crc_and_last_bit_trailer [of "map of_char ''123456789''"] by blast
  have "uint b = 0xEB"
    unfolding b(2) crc7_check_value by simp
  then have "word_of_int (uint b) = (word_of_int 0xEB :: byte)" by simp
  then have "b = 0xEB" by simp
  with b(1) show ?thesis by simp
qed

subsection \<open>The CID register\<close>

lemma rsv_mdt_range:
  assumes "0 \<le> (RSV::int)" "RSV \<le> 7" "0 \<le> (MDT::int)" "MDT \<le> 4095"
  shows "0 \<le> push_bit 3 RSV OR MDT \<and> push_bit 3 RSV OR MDT < 2 ^ (8 * 2)"
proof -
  have a: "0 \<le> push_bit 3 RSV" using assms by simp
  have b: "push_bit 3 RSV < 2 ^ 16" using assms by (simp add: push_bit_eq_mult)
  have c: "MDT < 2 ^ 16" using assms by simp
  have "push_bit 3 RSV OR MDT < 2 ^ 16" using a b c by (rule OR_upper)
  moreover have "0 \<le> push_bit 3 RSV OR MDT" using a assms by simp
  ultimately show ?thesis by simp
qed

text \<open>
  With every integer field in range and an ASCII product name, no conversion raises
  and the register is the six fields in order followed by the trailer.
\<close>

lemma compute_CID_fields:
  assumes "0 \<le> MID" "MID \<le> 255" "0 \<le> OID" "OID \<le> 65535"
    and "ascii_encode PNM = Inr pnm"
    and "0 \<le> PRV" "PRV \<le> 255" "0 \<le> PSN" "PSN < 2 ^ 32"
    and "0 \<le> RSV" "RSV \<le> 7" "0 \<le> MDT" "MDT \<le> 4095"
  shows "compute_CID MID OID PNM PRV PSN RSV MDT =
     Inr ((be_bytes 1 MID @ be_bytes 2 OID @ pnm @ be_bytes 1 PRV @ be_bytes 4 PSN
            @ be_bytes 2 (push_bit 3 RSV OR MDT))
          @ [word_of_int (push_bit 1 (crc7 (be_bytes 1 MID @ be_bytes 2 OID @ pnm
               @ be_bytes 1 PRV @ be_bytes 4 PSN @ be_bytes 2 (push_bit 3 RSV OR MDT))) OR 1)])"
proof -
  have 1: "to_bytes MID 1 = Inr (be_bytes 1 MID)"
    using assms by (intro to_bytes_fits) simp_all
  have 2: "to_bytes OID 2 = Inr (be_bytes 2 OID)"
    using assms by (intro to_bytes_fits) simp_all
  have 3: "to_bytes PRV 1 = Inr (be_bytes 1 PRV)"
    using assms by (intro to_bytes_fits) simp_all
  have 4: "to_bytes PSN 4 = Inr (be_bytes 4 PSN)"
    using assms by (intro to_bytes_fits) simp_all
  have 5: "to_bytes (push_bit 3 RSV OR MDT) 2 = Inr (be_bytes 2 (push_bit 3 RSV OR MDT))"
    using rsv_mdt_range [OF assms(10-13)] by (intro to_bytes_fits) blast+
  show ?thesis
    unfolding compute_CID_def Let_def 1 2 3 4 5 assms(5) crc_and_last_bit_eq
    by (simp add: unless_raised_def)
qed

lemma compute_CID_length:
  assumes "0 \<le> MID" "MID \<le> 255" "0 \<le> OID" "OID \<le> 65535"
    and "ascii_encode PNM = Inr pnm"
    and "0 \<le> PRV" "PRV \<le> 255" "0 \<le> PSN" "PSN < 2 ^ 32"
    and "0 \<le> RSV" "RSV \<le> 7" "0 \<le> MDT" "MDT \<le> 4095"
  shows "\<exists>cid. compute_CID MID OID PNM PRV PSN RSV MDT = Inr cid
           \<and> length cid = 11 + length pnm \<and> bit (last cid) 0"
proof -
  let ?pre = "be_bytes 1 MID @ be_bytes 2 OID @ pnm @ be_bytes 1 PRV @ be_bytes 4 PSN
            @ be_bytes 2 (push_bit 3 RSV OR MDT)"
  let ?t = "word_of_int (push_bit 1 (crc7 ?pre) OR 1) :: byte"
  have "compute_CID MID OID PNM PRV PSN RSV MDT = Inr (?pre @ [?t])"
    by (rule compute_CID_fields [OF assms])
  moreover have "length (?pre @ [?t]) = 11 + length pnm"
    by (simp add: length_be_bytes del: be_bytes.simps)
  moreover have "bit (last (?pre @ [?t])) 0"
    unfolding last_snoc by (rule trail_low_bit)
  ultimately show ?thesis by blast
qed

lemma ascii_SDCIT: "ascii_encode ''SDCIT'' = Inr [0x53, 0x44, 0x43, 0x49, 0x54]"
  by (simp add: ascii_encode_def)

text \<open>
  Claim C1. For MID in 0..255, OID in 0..65535, a product name whose ASCII encoding
  has exactly five bytes, PRV in 0..255, PSN below \<open>2^32\<close>, RSV in 0..7 and MDT in
  0..4095, \<open>compute_CID\<close> raises nothing and returns 16 bytes, the last of which has
  its low bit set. The function is pure: it takes no state and returns none, as the
  source reads only its parameters and writes nothing.
\<close>

theorem compute_CID_16_bytes:
  assumes "0 \<le> MID" "MID \<le> 255" "0 \<le> OID" "OID \<le> 65535"
    and "ascii_encode PNM = Inr pnm" "length pnm = 5"
    and "0 \<le> PRV" "PRV \<le> 255" "0 \<le> PSN" "PSN < 2 ^ 32"
    and "0 \<le> RSV" "RSV \<le> 7" "0 \<le> MDT" "MDT \<le> 4095"
  shows "\<exists>cid. compute_CID MID OID PNM PRV PSN RSV MDT = Inr cid
           \<and> length cid = 16 \<and> bit (last cid) 0"
  using compute_CID_length [OF assms(1-5) assms(7-14)] assms(6) by simp

theorem compute_CID_16_bytes_witness:
  "ascii_encode ''SDCIT'' = Inr [0x53, 0x44, 0x43, 0x49, 0x54]
   \<and> length [0x53, 0x44, 0x43, 0x49, 0x54 :: byte] = 5
   \<and> (\<exists>cid. compute_CID 0x41 0x3432 ''SDCIT'' 0x30 0x12345678 0x0 0x112 = Inr cid
           \<and> length cid = 16 \<and> bit (last cid) 0)"
  using compute_CID_16_bytes [of "0x41" "0x3432" "''SDCIT''" "[0x53, 0x44, 0x43, 0x49, 0x54]"
      "0x30" "0x12345678" "0x0" "0x112"] ascii_SDCIT
  by simp

text \<open>
  Claim C9. When the ASCII encoding of the product name has \<open>n\<close> bytes and \<open>n\<close> is
  not 5 (the other fields in range), \<open>compute_CID\<close> raises nothing and returns
  \<open>11 + n\<close> bytes, which is not 16.
\<close>

theorem compute_CID_wrong_name_length:
  assumes "0 \<le> MID" "MID \<le> 255" "0 \<le> OID" "OID \<le> 65535"
    and "ascii_encode PNM = Inr pnm" "length pnm = n" "n \<noteq> 5"
    and "0 \<le> PRV" "PRV \<le> 255" "0 \<le> PSN" "PSN < 2 ^ 32"
    and "0 \<le> RSV" "RSV \<le> 7" "0 \<le> MDT" "MDT \<le> 4095"
  shows "\<exists>cid. compute_CID MID OID PNM PRV PSN RSV MDT = Inr cid
           \<and> length cid = 11 + n \<and> length cid \<noteq> 16"
  using compute_CID_length [OF assms(1-5) assms(8-15)] assms(6,7) by auto

lemma ascii_SD: "ascii_encode ''SD'' = Inr [0x53, 0x44]"
  by (simp add: ascii_encode_def)

theorem compute_CID_wrong_name_length_witness:
  "ascii_encode ''SD'' = Inr [0x53, 0x44] \<and> length [0x53, 0x44 :: byte] = 2 \<and> (2::nat) \<noteq> 5
   \<and> (\<exists>cid. compute_CID 0x41 0x3432 ''SD'' 0x30 0x12345678 0x0 0x112 = Inr cid
           \<and> length cid = 11 + 2 \<and> length cid \<noteq> 16)"
  using compute_CID_wrong_name_length [of "0x41" "0x3432" "''SD''" "[0x53, 0x44]" 2
      "0x30" "0x12345678" "0x0" "0x112"] ascii_SD
  by simp




subsection \<open>The CSD register\<close>

lemma bytes_needed_step: "0 < n \<Longrightarrow> Suc ((n - 8 + 7) div 8) = (n + 7) div (8::nat)"
proof (cases "8 \<le> n")
  case True
  then obtain m where "n = m + 8" by (metis le_add_diff_inverse2)
  then show ?thesis by simp
next
  case False
  assume "0 < n"
  with False have "n - 8 = 0" "(n + 7) div 8 = 1" by simp_all
  then show ?thesis by simp
qed

lemma length_tobytes: "length (tobytes bits) = (length bits + 7) div 8"
proof (induction bits rule: tobytes.induct)
  case (1 bits)
  show ?case
  proof (cases "bits = []")
    case True
    then show ?thesis by (simp add: tobytes.simps)
  next
    case False
    then have "length (tobytes bits) = Suc (length (tobytes (drop 8 bits)))"
      by (subst tobytes.simps) simp
    also have "\<dots> = Suc ((length (drop 8 bits) + 7) div 8)"
      using 1 [OF False] by simp
    also have "\<dots> = (length bits + 7) div 8"
      using False bytes_needed_step [of "length bits"] by simp
    finally show ?thesis .
  qed
qed

lemma upt_29: "[0..<29] = [0, 1, 2, 3, 4, 5, 6, 7, 8, 9, 10, 11, 12, 13, 14, 15, 16, 17, 18,
    19, 20, 21, 22, 23, 24, 25, 26, 27, 28]"
  by code_simp

lemma concat_29:
  assumes "length args = 29"
  shows "args ! 0 @ args ! 1 @ args ! 2 @ args ! 3 @ args ! 4 @ args ! 5 @ args ! 6
     @ args ! 7 @ args ! 8 @ args ! 9 @ args ! 10 @ args ! 11 @ args ! 12 @ args ! 13
     @ args ! 14 @ args ! 15 @ args ! 16 @ args ! 17 @ args ! 18 @ args ! 19 @ args ! 20
     @ args ! 21 @ args ! 22 @ args ! 23 @ args ! 24 @ args ! 25 @ args ! 26 @ args ! 27
     @ args ! 28 = concat args"
proof -
  have "concat args = concat (map ((!) args) [0..<29])"
    using map_nth [of args] assms by simp
  then show ?thesis
    unfolding upt_29 by simp
qed

lemma compute_CSD_concat:
  "compute_CSD CSD_STRUCTURE RSV1 TAAC NSAC TRANS_SPEED CCC READ_BL_LEN READ_BL_PARTIAL
     WRITE_BLK_MISALIGN READ_BLK_MISALIGN DSR_IMP RSV2 C_SIZE RSV3 ERASE_BLK_EN
     SECTOR_SIZE WP_GRP_SIZE WP_GRP_ENABLE RSV4 R2W_FACTOR WRITE_BL_LEN WRITE_BL_LEN2
     RSV5 FILE_FORMAT_GRP COPY PERM_WRITE_PROTECT TMP_WRITE_PROTECT FILE_FORMAT RSV6 =
   Inr (tobytes (concat [CSD_STRUCTURE, RSV1, TAAC, NSAC, TRANS_SPEED, CCC, READ_BL_LEN,
          READ_BL_PARTIAL, WRITE_BLK_MISALIGN, READ_BLK_MISALIGN, DSR_IMP, RSV2, C_SIZE,
          RSV3, ERASE_BLK_EN, SECTOR_SIZE, WP_GRP_SIZE, WP_GRP_ENABLE, RSV4, R2W_FACTOR,
          WRITE_BL_LEN, WRITE_BL_LEN2, RSV5, FILE_FORMAT_GRP, COPY, PERM_WRITE_PROTECT,
          TMP_WRITE_PROTECT, FILE_FORMAT, RSV6])
        @ [word_of_int (push_bit 1 (crc7 (tobytes (concat [CSD_STRUCTURE, RSV1, TAAC,
          NSAC, TRANS_SPEED, CCC, READ_BL_LEN, READ_BL_PARTIAL, WRITE_BLK_MISALIGN,
          READ_BLK_MISALIGN, DSR_IMP, RSV2, C_SIZE, RSV3, ERASE_BLK_EN, SECTOR_SIZE,
          WP_GRP_SIZE, WP_GRP_ENABLE, RSV4, R2W_FACTOR, WRITE_BL_LEN, WRITE_BL_LEN2, RSV5,
          FILE_FORMAT_GRP, COPY, PERM_WRITE_PROTECT, TMP_WRITE_PROTECT, FILE_FORMAT,
          RSV6]))) OR 1)])"
  unfolding compute_CSD_def Let_def crc_and_last_bit_eq by simp

lemma compute_CSD_call_29:
  assumes "length args = 29"
  shows "compute_CSD_call args =
     Inr (tobytes (concat args)
          @ [word_of_int (push_bit 1 (crc7 (tobytes (concat args))) OR 1)])"
  unfolding compute_CSD_call_def compute_CSD_def Let_def concat_29 [OF assms]
    crc_and_last_bit_eq
  using assms by simp

lemma CSD_widths_total: "length CSD_widths = 29 \<and> sum_list CSD_widths = 120"
  by (simp add: CSD_widths_def)

lemma SD_CSD_fields_widths: "map length SD_CSD_fields = CSD_widths"
  by (simp add: SD_CSD_fields_def CSD_widths_def frombytes_def lastn_def numeral_2_eq_2
      numeral_3_eq_3)

lemma declared_widths_fit:
  assumes "map length args = CSD_widths"
  shows "length args = 29 \<and> sum_list (map length args) = 120"
  using assms CSD_widths_total by (metis length_map)

text \<open>
  Claim C7, as stated, fails on the number of fields: \<open>compute_CSD\<close> has 29
  parameters, so 28 bit sequences, here the fields of the class with the last two
  joined into one (120 bits in all), are rejected with a TypeError.
\<close>

theorem compute_CSD_28_fields_counterexample:
  "length (take 27 SD_CSD_fields @ [replicate 4 False]) = 28
   \<and> length (concat (take 27 SD_CSD_fields @ [replicate 4 False])) = 120
   \<and> compute_CSD_call (take 27 SD_CSD_fields @ [replicate 4 False]) = Inl TypeError"
  by code_simp

text \<open>
  Claim C7, amended. For 29 field inputs whose widths sum to 120 bits (in particular
  fields of the declared widths), \<open>compute_CSD\<close> concatenates them in parameter order
  into a buffer of 120 bits, converts it to 15 bytes, appends the trailer computed
  from these bytes, and returns exactly 16 bytes.
\<close>

theorem compute_CSD_16_bytes:
  assumes "length args = 29" "sum_list (map length args) = 120"
  shows "\<exists>trail. compute_CSD_call args = Inr (tobytes (concat args) @ trail)
           \<and> length (concat args) = 120
           \<and> length (tobytes (concat args)) = 15
           \<and> crc_and_last_bit (tobytes (concat args)) = Inr trail
           \<and> length (tobytes (concat args) @ trail) = 16"
proof -
  let ?b = "tobytes (concat args)"
  let ?t = "word_of_int (push_bit 1 (crc7 ?b) OR 1) :: byte"
  have len: "length (concat args) = 120"
    using assms(2) by (simp add: length_concat)
  have b: "length ?b = 15"
    unfolding length_tobytes len by simp
  then have "length (?b @ [?t]) = 16"
    by simp
  moreover have "compute_CSD_call args = Inr (?b @ [?t])"
    by (rule compute_CSD_call_29 [OF assms(1)])
  moreover have "crc_and_last_bit ?b = Inr [?t]"
    by (rule crc_and_last_bit_eq)
  ultimately show ?thesis
    using len b by blast
qed

theorem compute_CSD_16_bytes_witness:
  "length SD_CSD_fields = 29 \<and> sum_list (map length SD_CSD_fields) = 120
   \<and> (\<exists>trail. SD_CSD = Inr (tobytes (concat SD_CSD_fields) @ trail)
           \<and> length (tobytes (concat SD_CSD_fields) @ trail) = 16)"
proof -
  have 1: "length SD_CSD_fields = 29"
    using SD_CSD_fields_widths CSD_widths_total by (metis length_map)
  have 2: "sum_list (map length SD_CSD_fields) = 120"
    using SD_CSD_fields_widths CSD_widths_total by simp
  show ?thesis
    using compute_CSD_16_bytes [OF 1 2] 1 2 unfolding SD_CSD_def by blast
qed

lemma SD_CSD_value:
  "SD_CSD = Inr [0x40, 0x0e, 0x00, 0x5a, 0x5b, 0x59, 0x00, 0x00, 0x12, 0x7f, 0x7f, 0x80,
                 0x0a, 0x40, 0x00, 0x93]"
  by code_simp

section \<open>Properties of the block store\<close>

subsection \<open>Reading and writing\<close>

lemma map_of_write_block: "map_of (write_block d a c) = (map_of d)(a \<mapsto> c)"
  by (simp add: write_block_def update_conv')

lemma read_block_miss: "map_of d a = None \<Longrightarrow> read_block d a = replicate 512 0"
  by (simp add: read_block_def)

lemma read_block_hit: "map_of d a = Some c \<Longrightarrow> read_block d a = c"
  by (simp add: read_block_def)

lemma get_block_list_keys: "get_block_list d = map fst d"
proof -
  have "foldl (\<lambda>blocks addr. blocks @ [addr]) acc ks = acc @ ks" for acc ks :: "key list"
    by (induction ks arbitrary: acc) simp_all
  then show ?thesis by (simp add: get_block_list_def)
qed

subsection \<open>What each call does to the dictionary\<close>

lemma disk_export_to_file: "disk (snd (export_to_file s name)) = disk s"
  by (simp add: export_to_file_def Let_def split: sum.splits list.splits key.splits)

lemma disk_export_as_dictionary: "disk (snd (export_as_dictionary s name)) = disk s"
  by (simp add: export_as_dictionary_def Let_def split: sum.splits prod.splits)

lemma import_loop_int_keys:
  "map_of (snd (import_loop rest d)) (IntKey i) = map_of d (IntKey i)"
proof (induction rest d rule: import_loop.induct)
  case (1 rest d)
  show ?case
  proof (cases "struct_unpack_I (take 4 rest)")
    case (Inl e)
    then show ?thesis by (subst import_loop.simps) (simp add: Let_def)
  next
    case (Inr addr)
    then have t: "addr = TupleKey (be_int (take 4 rest))"
      by (auto simp: struct_unpack_I_def split: if_splits)
    have "map_of (snd (import_loop rest d)) (IntKey i) =
        map_of (snd (import_loop (drop 512 (drop 4 rest))
          (AList.update addr (take 512 (drop 4 rest)) d))) (IntKey i)"
      using Inr by (subst import_loop.simps) (simp add: Let_def)
    also have "\<dots> = map_of (AList.update addr (take 512 (drop 4 rest)) d) (IntKey i)"
      using 1 [OF refl refl Inr] .
    also have "\<dots> = map_of d (IntKey i)"
      using t by (simp add: update_conv')
    finally show ?thesis .
  qed
qed

lemma import_loop_raises: "fst (import_loop rest d) = Inl StructError"
proof (induction rest d rule: import_loop.induct)
  case (1 rest d)
  show ?case
  proof (cases "struct_unpack_I (take 4 rest)")
    case (Inl e)
    then have "e = StructError"
      by (auto simp: struct_unpack_I_def split: if_splits)
    with Inl show ?thesis by (subst import_loop.simps) (simp add: Let_def)
  next
    case (Inr addr)
    then show ?thesis
      using 1 [OF refl refl Inr] by (subst import_loop.simps) (simp add: Let_def)
  qed
qed

lemma import_from_dictionary_int_keys:
  "map_of (disk (snd (import_from_dictionary s name))) (IntKey i) = map_of (disk s) (IntKey i)"
  by (simp add: import_from_dictionary_def Let_def import_loop_int_keys
      split: sum.splits prod.splits)
     (metis import_loop_int_keys snd_conv)

lemma step_keeps_lookup:
  assumes "\<not> may_store k op"
  shows "map_of (disk (snd (step s op))) k = map_of (disk s) k"
proof (cases op)
  case (WriteBlock addr content)
  then show ?thesis using assms by (simp add: map_of_write_block)
next
  case (ImportFromDictionary name)
  then obtain i where "k = IntKey i" using assms by (cases k) simp_all
  then show ?thesis
    using ImportFromDictionary import_from_dictionary_int_keys [of s name i]
    by (simp split: prod.splits) (metis snd_conv)
next
  case (ExportToFile name)
  then show ?thesis
    using disk_export_to_file [of s name] by (simp split: prod.splits) (metis snd_conv)
next
  case (ExportAsDictionary name)
  then show ?thesis
    using disk_export_as_dictionary [of s name] by (simp split: prod.splits) (metis snd_conv)
qed simp_all

lemma run_snoc: "run s (ops @ [op]) = snd (step (run s ops) op)"
  by (simp add: run_def)

lemma run_keeps_lookup:
  assumes "\<not> list_ex (may_store k) ops"
  shows "map_of (disk (run s ops)) k = map_of (disk s) k"
  using assms
proof (induction ops rule: rev_induct)
  case Nil
  then show ?case by (simp add: run_def)
next
  case (snoc op ops)
  then show ?case
    by (simp add: run_snoc step_keeps_lookup list_ex_iff)
qed

subsection \<open>The dictionary as an association list\<close>

text \<open>
  A dictionary has every key once. The model keeps this: from the empty dictionary
  of the class, no sequence of calls produces a list with a key twice, so the length
  of the list is the number of keys and \<open>map_of\<close> is the lookup.
\<close>

lemma import_loop_distinct:
  "distinct (map fst d) \<Longrightarrow> distinct (map fst (snd (import_loop rest d)))"
proof (induction rest d rule: import_loop.induct)
  case (1 rest d)
  show ?case
  proof (cases "struct_unpack_I (take 4 rest)")
    case (Inl e)
    then show ?thesis
      using "1.prems" by (subst import_loop.simps) (simp add: Let_def)
  next
    case (Inr addr)
    have "distinct (map fst (AList.update addr (take 512 (drop 4 rest)) d))"
      using "1.prems" by (rule distinct_update)
    then have "distinct (map fst (snd (import_loop (drop 512 (drop 4 rest))
        (AList.update addr (take 512 (drop 4 rest)) d))))"
      by (rule "1.IH" [OF refl refl Inr])
    then show ?thesis
      using Inr by (subst import_loop.simps) (simp add: Let_def)
  qed
qed

lemma step_distinct:
  assumes "distinct (map fst (disk s))"
  shows "distinct (map fst (disk (snd (step s op))))"
proof (cases op)
  case (WriteBlock addr content)
  then show ?thesis
    using assms by (simp add: write_block_def distinct_update)
next
  case (ImportFromDictionary name)
  have "distinct (map fst (disk (snd (import_from_dictionary s name))))"
    using assms import_loop_distinct [of "disk s"]
    by (auto simp: import_from_dictionary_def Let_def split: sum.splits prod.splits)
       (metis snd_conv)
  then show ?thesis
    using ImportFromDictionary by (simp split: prod.splits) (metis snd_conv)
next
  case (ExportToFile name)
  then show ?thesis
    using assms disk_export_to_file [of s name] by (simp split: prod.splits) (metis snd_conv)
next
  case (ExportAsDictionary name)
  then show ?thesis
    using assms disk_export_as_dictionary [of s name]
    by (simp split: prod.splits) (metis snd_conv)
qed (use assms in simp_all)

lemma run_distinct: "distinct (map fst (disk (run (initial_state f) ops)))"
proof (induction ops rule: rev_induct)
  case Nil
  then show ?case by (simp add: run_def initial_state_def empty_disk_def)
next
  case (snoc op ops)
  then show ?case by (simp add: run_snoc step_distinct)
qed

text \<open>
  Claim C3. Start from the empty dictionary of the class and make any sequence of
  calls. For an address that was never passed to \<open>write_block\<close>, \<open>read_block\<close>
  raises nothing and returns 512 zero bytes. The address is an integer; a tuple,
  which is no address, qualifies as well when nothing was imported.
\<close>

theorem read_block_never_written:
  assumes "\<not> list_ex (may_store addr) ops"
  shows "step (run (initial_state f) ops) (ReadBlock addr) =
           (Inr (RBytes (replicate 512 0)), run (initial_state f) ops)
         \<and> read_block (disk (run (initial_state f) ops)) addr = replicate 512 0
         \<and> length (read_block (disk (run (initial_state f) ops)) addr) = 512
         \<and> set (read_block (disk (run (initial_state f) ops)) addr) = {0}"
proof -
  have "map_of (disk (run (initial_state f) ops)) addr = map_of (disk (initial_state f)) addr"
    using assms by (rule run_keeps_lookup)
  then have "map_of (disk (run (initial_state f) ops)) addr = None"
    by (simp add: initial_state_def empty_disk_def)
  then have "read_block (disk (run (initial_state f) ops)) addr = replicate 512 0"
    by (rule read_block_miss)
  then show ?thesis by simp
qed

theorem read_block_never_written_witness:
  "\<not> list_ex (may_store (IntKey 1))
       [WriteBlock (IntKey 0) [0xAA], ReadBlock (IntKey 1), ExportAsDictionary ''d'',
        ImportFromDictionary ''d'', WriteBlock (IntKey 2) [0xBB]]
   \<and> read_block (disk (run (initial_state (\<lambda>_. NoFile))
         [WriteBlock (IntKey 0) [0xAA], ReadBlock (IntKey 1), ExportAsDictionary ''d'',
          ImportFromDictionary ''d'', WriteBlock (IntKey 2) [0xBB]])) (IntKey 1)
       = replicate 512 0"
  using read_block_never_written [of "IntKey 1"
      "[WriteBlock (IntKey 0) [0xAA], ReadBlock (IntKey 1), ExportAsDictionary ''d'',
        ImportFromDictionary ''d'', WriteBlock (IntKey 2) [0xBB]]" "\<lambda>_. NoFile"]
  by simp

text \<open>
  Claim C4. After \<open>write_block(A, C)\<close>, \<open>read_block(A)\<close> returns \<open>C\<close> itself,
  directly and after any calls that store nothing under \<open>A\<close>; a later
  \<open>write_block(A, C')\<close> replaces the entry, so that \<open>read_block(A)\<close> returns \<open>C'\<close>.
\<close>

theorem write_block_read_block:
  "read_block (write_block d A C) A = C
   \<and> (\<not> list_ex (may_store A) ops \<longrightarrow>
        read_block (disk (run (snd (step s (WriteBlock A C))) ops)) A = C)
   \<and> read_block (write_block (write_block d A C) A C') A = C'
   \<and> (\<not> list_ex (may_store A) ops \<longrightarrow>
        read_block (disk (snd (step (run (snd (step s (WriteBlock A C))) ops)
          (WriteBlock A C')))) A = C')"
proof -
  have 1: "read_block (write_block d A C) A = C" for d C
    by (simp add: read_block_hit map_of_write_block)
  have 2: "read_block (disk (run (snd (step s (WriteBlock A C))) ops)) A = C"
    if "\<not> list_ex (may_store A) ops"
  proof -
    have "map_of (disk (run (snd (step s (WriteBlock A C))) ops)) A =
        map_of (disk (snd (step s (WriteBlock A C)))) A"
      using that by (rule run_keeps_lookup)
    then show ?thesis
      by (simp add: read_block_hit map_of_write_block)
  qed
  show ?thesis
    using 1 2 by simp
qed

theorem write_block_read_block_witness:
  "\<not> list_ex (may_store (IntKey 7)) [WriteBlock (IntKey 8) [3], ImportFromDictionary ''d'']
   \<and> read_block (disk (run (snd (step (initial_state (\<lambda>_. NoFile))
          (WriteBlock (IntKey 7) [1, 2]))) [WriteBlock (IntKey 8) [3], ImportFromDictionary ''d'']))
        (IntKey 7) = [1, 2]
   \<and> read_block (write_block (write_block [] (IntKey 7) [1, 2]) (IntKey 7) [9]) (IntKey 7) = [9]"
  using write_block_read_block [of "[]" "IntKey 7" "[1, 2]"
      "[WriteBlock (IntKey 8) [3], ImportFromDictionary ''d'']"
      "initial_state (\<lambda>_. NoFile)" "[9]"]
  by simp

text \<open>
  Claim C10. A call of \<open>read_block\<close>, \<open>get_block_count\<close>, \<open>get_block_list\<close>,
  \<open>print_block\<close>, \<open>export_to_file\<close> or \<open>export_as_dictionary\<close>, whether it
  returns or raises, leaves the dictionary as it was, and so does any sequence of
  such calls. In particular, after reading an address that has no entry the address
  still has none, and the block count and the block list are the same.
\<close>

theorem queries_keep_disk:
  "(is_query op \<longrightarrow> disk (snd (step s op)) = disk s)
   \<and> (list_all is_query ops \<longrightarrow> disk (run s ops) = disk s)
   \<and> (map_of (disk s) addr = None \<longrightarrow>
        map_of (disk (snd (step s (ReadBlock addr)))) addr = None
        \<and> get_block_count (disk (snd (step s (ReadBlock addr)))) = get_block_count (disk s)
        \<and> get_block_list (disk (snd (step s (ReadBlock addr)))) = get_block_list (disk s))"
proof -
  have one: "disk (snd (step s op)) = disk s" if "is_query op" for s op
  proof (cases op)
    case (ExportToFile name)
    then show ?thesis
      using disk_export_to_file [of s name] by (simp split: prod.splits) (metis snd_conv)
  next
    case (ExportAsDictionary name)
    then show ?thesis
      using disk_export_as_dictionary [of s name] by (simp split: prod.splits) (metis snd_conv)
  qed (use that in simp_all)
  have many: "disk (run s ops) = disk s" if "list_all is_query ops"
    using that
  proof (induction ops rule: rev_induct)
    case Nil
    then show ?case by (simp add: run_def)
  next
    case (snoc op ops)
    then show ?case by (simp add: run_snoc one)
  qed
  show ?thesis
    using one many by simp
qed

theorem queries_keep_disk_witness:
  "is_query (ExportToFile ''img'')
   \<and> disk (snd (step (initial_state (\<lambda>_. NoFile)) (ExportToFile ''img''))) = empty_disk
   \<and> fst (step (initial_state (\<lambda>_. NoFile)) (ExportToFile ''img'')) = Inl IndexError
   \<and> list_all is_query [ReadBlock (IntKey 3), GetBlockCount, GetBlockList, PrintBlock (IntKey 3),
        ExportToFile ''img'', ExportAsDictionary ''d'']
   \<and> disk (run (snd (step (initial_state (\<lambda>_. NoFile)) (WriteBlock (IntKey 5) [1])))
        [ReadBlock (IntKey 3), GetBlockCount, GetBlockList, PrintBlock (IntKey 3),
         ExportToFile ''img'', ExportAsDictionary ''d'']) = [(IntKey 5, [1])]
   \<and> map_of (disk (initial_state (\<lambda>_. NoFile))) (IntKey 3) = None
   \<and> get_block_count (disk (snd (step (initial_state (\<lambda>_. NoFile)) (ReadBlock (IntKey 3))))) = 0"
proof -
  have a: "disk (initial_state (\<lambda>_. NoFile)) = empty_disk"
    by (simp add: initial_state_def)
  have b: "fst (step (initial_state (\<lambda>_. NoFile)) (ExportToFile ''img'')) = Inl IndexError"
    by code_simp
  have c: "disk (snd (step (initial_state (\<lambda>_. NoFile)) (WriteBlock (IntKey 5) [1])))
      = [(IntKey 5, [1])]"
    by (simp add: initial_state_def empty_disk_def write_block_def)
  have d: "get_block_count empty_disk = 0"
    by (simp add: get_block_count_def empty_disk_def)
  have e: "map_of empty_disk (IntKey 3) = None"
    by (simp add: empty_disk_def)
  show ?thesis
    using
      queries_keep_disk [of "ExportToFile ''img''" "initial_state (\<lambda>_. NoFile)" "[]" "IntKey 3"]
      queries_keep_disk [of GetBlockCount
        "snd (step (initial_state (\<lambda>_. NoFile)) (WriteBlock (IntKey 5) [1]))"
        "[ReadBlock (IntKey 3), GetBlockCount, GetBlockList, PrintBlock (IntKey 3),
          ExportToFile ''img'', ExportAsDictionary ''d'']" "IntKey 3"]
      a b c d e
    by simp
qed

subsection \<open>The exported image\<close>

lemma sort_keys_ints:
  "list_all is_int ks \<Longrightarrow> sort_keys ks = Inr (map IntKey (sort (map key_val ks)))"
  by (simp add: sort_keys_def)

lemma sorted_hd_Min:
  fixes xs :: "int list"
  assumes "sorted xs" "xs \<noteq> []"
  shows "hd xs = Min (set xs)"
proof -
  obtain y ys where xs: "xs = y # ys"
    using assms(2) by (cases xs) simp_all
  have "sorted (y # ys)"
    using assms(1) unfolding xs .
  then have "\<forall>z\<in>set (y # ys). y \<le> z"
    by simp
  then have "\<forall>z\<in>set xs. y \<le> z"
    unfolding xs .
  then have "Min (set xs) = y"
    using xs by (intro Min_eqI) auto
  then show ?thesis using xs by simp
qed

lemma sorted_le_last:
  fixes xs :: "int list"
  shows "sorted xs \<Longrightarrow> z \<in> set xs \<Longrightarrow> z \<le> last xs"
proof (induction xs)
  case Nil
  then show ?case by simp
next
  case (Cons x xs)
  then show ?case by (cases "xs = []") auto
qed

lemma sorted_last_Max:
  fixes xs :: "int list"
  assumes "sorted xs" "xs \<noteq> []"
  shows "last xs = Max (set xs)"
proof -
  have "\<forall>z\<in>set xs. z \<le> last xs"
    using assms(1) sorted_le_last by blast
  then have "Max (set xs) = last xs"
    using assms(2) by (intro Max_eqI) simp_all
  then show ?thesis by simp
qed

lemma open_wb_ok: "f path \<noteq> Denied \<Longrightarrow> open_wb f path = Inr (f(path := File []))"
  by (simp add: open_wb_def split: node.splits)

lemma foldl_file_write:
  "f path = File c \<Longrightarrow>
   foldl (\<lambda>f i. file_write f path (g i)) f xs = f(path := File (c @ concat (map g xs)))"
proof (induction xs arbitrary: f c)
  case Nil
  then show ?case by (simp add: fun_upd_idem)
next
  case (Cons x xs)
  have "file_write f path (g x) path = File (c @ g x)"
    using Cons.prems by (simp add: file_write_def)
  then have "foldl (\<lambda>f i. file_write f path (g i)) (file_write f path (g x)) xs =
      (file_write f path (g x))(path := File ((c @ g x) @ concat (map g xs)))"
    by (rule Cons.IH)
  then show ?case
    using Cons.prems by (simp add: file_write_def)
qed

lemma export_to_file_empty:
  assumes "files s (''./'' @ name) \<noteq> Denied" "disk s = []"
  shows "export_to_file s name =
    (Inl IndexError, s\<lparr>files := (files s)(''./'' @ name := File [])\<rparr>)"
  using assms
  by (simp add: export_to_file_def Let_def open_wb_ok get_block_list_keys sort_keys_def)

lemma export_to_file_denied:
  assumes "files s (''./'' @ name) = Denied"
  shows "export_to_file s name = (Inl OSError, s)"
  using assms by (simp add: export_to_file_def Let_def open_wb_def)

lemma export_to_file_int_keys:
  assumes "files s (''./'' @ name) \<noteq> Denied"
    and "disk s \<noteq> []"
    and "list_all is_int (map fst (disk s))"
  shows "export_to_file s name =
    (Inr (), s\<lparr>files := (files s)(''./'' @ name := File (concat (map
       (\<lambda>i. read_block (disk s) (IntKey i))
       [Min (key_val ` fst ` set (disk s)) .. Max (key_val ` fst ` set (disk s))])))\<rparr>)"
proof -
  let ?path = "''./'' @ name"
  let ?ks = "sort (map key_val (map fst (disk s)))"
  let ?K = "key_val ` fst ` set (disk s)"
  let ?f = "(files s)(?path := File [])"
  have ne: "?ks \<noteq> []"
    using assms(2) by (metis length_sort length_map length_0_conv)
  then obtain k ks' where ks: "?ks = k # ks'"
    by (cases ?ks) simp_all
  have set: "set ?ks = ?K"
    by (simp add: image_image)
  have lo: "k = Min ?K"
    using sorted_hd_Min [of ?ks] ne ks set by (metis list.sel(1) sorted_sort)
  have hi: "last (k # ks') = Max ?K"
    using sorted_last_Max [of ?ks] ne ks set by (metis sorted_sort)
  have sk: "sort_keys (get_block_list (disk s)) = Inr (IntKey k # map IntKey ks')"
    using sort_keys_ints [OF assms(3)] ks by (simp add: get_block_list_keys)
  have la: "last (IntKey k # map IntKey ks') = IntKey (last (k # ks'))"
    by (metis last_map list.simps(9) list.distinct(1))
  have wr: "foldl (\<lambda>f i. file_write f ?path (read_block (disk s) (IntKey i))) ?f
      [k..last (k # ks')] =
      ?f(?path := File ([] @ concat (map (\<lambda>i. read_block (disk s) (IntKey i))
        [k..last (k # ks')])))"
    by (rule foldl_file_write) simp
  show ?thesis
    unfolding export_to_file_def Let_def
      open_wb_ok [of "files s" "''./'' @ name", OF assms(1)] sk
    by (simp only: sum.case list.case la prod.case key.case wr)
       (simp add: lo hi [symmetric])
qed

lemma length_concat_blocks:
  "\<forall>x\<in>set xs. length (g x) = n \<Longrightarrow> length (concat (map g xs)) = n * length xs"
  by (induction xs) simp_all

lemma block_of_concat:
  "\<forall>x\<in>set xs. length (g x) = n \<Longrightarrow> k < length xs \<Longrightarrow>
   take n (drop (n * k) (concat (map g xs))) = g (xs ! k)"
proof (induction xs arbitrary: k)
  case Nil
  then show ?case by simp
next
  case (Cons x xs)
  show ?case
  proof (cases k)
    case 0
    then show ?thesis using Cons.prems by simp
  next
    case (Suc j)
    then have "take n (drop (n * j) (concat (map g xs))) = g (xs ! j)"
      using Cons.prems by (intro Cons.IH) simp_all
    then show ?thesis
      using Cons.prems Suc by simp
  qed
qed

lemma length_read_block:
  assumes "list_all (\<lambda>(k, v). length v = 512) d"
  shows "length (read_block d a) = 512"
proof (cases "map_of d a")
  case None
  then show ?thesis by (simp add: read_block_miss)
next
  case (Some c)
  then have "(a, c) \<in> set d" by (rule map_of_SomeD)
  then have "length c = 512"
    using assms by (auto simp: list_all_iff)
  then show ?thesis using Some by (simp add: read_block_hit)
qed

lemma export_to_file_blocks:
  assumes "list_all (\<lambda>(k, v). length v = 512) d" "lo \<le> N" "N \<le> hi"
  shows "take 512 (drop (512 * nat (N - lo))
           (concat (map (\<lambda>i. read_block d (IntKey i)) [lo..hi]))) = read_block d (IntKey N)"
proof -
  have len: "\<forall>i\<in>set [lo..hi]. length (read_block d (IntKey i)) = 512"
    using length_read_block [OF assms(1)] by simp
  have k: "nat (N - lo) < length [lo..hi]"
    using assms(2,3) by simp
  have "[lo..hi] ! nat (N - lo) = lo + int (nat (N - lo))"
    using assms(2,3) by (intro nth_upto) simp
  then have "[lo..hi] ! nat (N - lo) = N"
    using assms(2) by simp
  then show ?thesis
    using block_of_concat [of "[lo..hi]" "\<lambda>i. read_block d (IntKey i)" 512 "nat (N - lo)",
        OF len k]
    by simp
qed

lemma export_to_file_length:
  assumes "list_all (\<lambda>(k, v). length v = 512) d"
  shows "length (concat (map (\<lambda>i. read_block d (IntKey i)) [lo..hi])) = 512 * nat (hi - lo + 1)"
proof -
  have "\<forall>i\<in>set [lo..hi]. length (read_block d (IntKey i)) = 512"
    using length_read_block [OF assms(1)] by simp
  then have "length (concat (map (\<lambda>i. read_block d (IntKey i)) [lo..hi])) =
      512 * length [lo..hi]"
    by (rule length_concat_blocks)
  then show ?thesis by simp
qed

text \<open>The store of the example: block 0 is 512 bytes 0xAA, block 2 is 512 bytes 0xBB.\<close>

lemma example_store:
  "run (initial_state f) [WriteBlock (IntKey 0) (replicate 512 0xAA),
      WriteBlock (IntKey 2) (replicate 512 0xBB)] =
   \<lparr>disk = [(IntKey 0, replicate 512 0xAA), (IntKey 2, replicate 512 0xBB)],
    files = f, stdout = []\<rparr>"
  by (simp add: run_def initial_state_def empty_disk_def write_block_def)

lemma example_image:
  "concat (map (\<lambda>i. read_block [(IntKey 0, replicate 512 0xAA), (IntKey 2, replicate 512 0xBB)]
       (IntKey i)) [0..2]) =
   replicate 512 0xAA @ replicate 512 0 @ replicate 512 0xBB"
proof -
  have "[0..2::int] = [0, 1, 2]" by code_simp
  then show ?thesis by (simp add: read_block_def)
qed

lemma example_export:
  "export_to_file (run (initial_state (\<lambda>_. NoFile))
       [WriteBlock (IntKey 0) (replicate 512 0xAA),
        WriteBlock (IntKey 2) (replicate 512 0xBB)]) ''image'' =
   (Inr (), \<lparr>disk = [(IntKey 0, replicate 512 0xAA), (IntKey 2, replicate 512 0xBB)],
     files = (\<lambda>_. NoFile)(''./image'' :=
       File (replicate 512 0xAA @ replicate 512 0 @ replicate 512 0xBB)),
     stdout = []\<rparr>)"
proof -
  let ?s = "\<lparr>disk = [(IntKey 0, replicate 512 0xAA), (IntKey 2, replicate 512 0xBB)],
    files = (\<lambda>_. NoFile), stdout = []\<rparr>"
  have "export_to_file ?s ''image'' =
    (Inr (), ?s\<lparr>files := (files ?s)(''./'' @ ''image'' := File (concat (map
       (\<lambda>i. read_block (disk ?s) (IntKey i))
       [Min (key_val ` fst ` set (disk ?s)) .. Max (key_val ` fst ` set (disk ?s))])))\<rparr>)"
    by (rule export_to_file_int_keys) simp_all
  then show ?thesis
    unfolding example_store by (simp add: example_image)
qed

text \<open>
  Claim C6, as stated, fails on the byte offset: the image starts at the lowest
  stored address, not at address 0. With one block at address 1 the image is that
  block alone, so the block is at offset 0 and nothing is at offset \<open>1 * 512\<close>.
\<close>

theorem export_to_file_offset_counterexample:
  "export_to_file \<lparr>disk = [(IntKey 1, replicate 512 0xAA)], files = (\<lambda>_. NoFile), stdout = []\<rparr>
       ''image'' =
     (Inr (), \<lparr>disk = [(IntKey 1, replicate 512 0xAA)],
        files = (\<lambda>_. NoFile)(''./image'' := File (replicate 512 0xAA)), stdout = []\<rparr>)
   \<and> take 512 (drop (1 * 512) (replicate 512 (0xAA :: byte))) \<noteq>
       read_block [(IntKey 1, replicate 512 0xAA)] (IntKey 1)"
proof -
  let ?s = "\<lparr>disk = [(IntKey 1, replicate 512 0xAA)], files = (\<lambda>_. NoFile), stdout = []\<rparr>"
  have "export_to_file ?s ''image'' =
    (Inr (), ?s\<lparr>files := (files ?s)(''./'' @ ''image'' := File (concat (map
       (\<lambda>i. read_block (disk ?s) (IntKey i))
       [Min (key_val ` fst ` set (disk ?s)) .. Max (key_val ` fst ` set (disk ?s))])))\<rparr>)"
    by (rule export_to_file_int_keys) simp_all
  moreover have "[1..1::int] = [1]" by code_simp
  moreover have "replicate 512 (0xAA :: byte) \<noteq> []" by simp
  ultimately show ?thesis
    by (simp add: read_block_def)
qed

text \<open>
  Claim C6, amended. On an empty store \<open>export_to_file\<close> fails: with OSError when
  the path cannot be opened for writing, with IndexError otherwise. On a store that
  is not empty, with integer addresses and a path that can be opened, it writes for
  every address from the smallest stored one to the largest, in ascending order,
  what \<open>read_block\<close> returns there: the stored content, or 512 zero bytes for a
  hole. When every stored block has 512 bytes, the image has 512 bytes per address
  of this range and address \<open>N\<close> is at byte offset \<open>(N - min) * 512\<close>. In the example
  (0xAA at address 0, 0xBB at address 2, address 1 unwritten) the image is the 1536
  bytes 0xAA x 512, 0 x 512, 0xBB x 512.
\<close>

theorem export_to_file_image:
  "(disk s = [] \<longrightarrow>
      fst (export_to_file s name) =
        Inl (if files s (''./'' @ name) = Denied then OSError else IndexError))
    \<and> (files s (''./'' @ name) \<noteq> Denied \<and> disk s \<noteq> []
         \<and> list_all is_int (map fst (disk s)) \<longrightarrow>
         (let lo = Min (key_val ` fst ` set (disk s));
              hi = Max (key_val ` fst ` set (disk s));
              image = concat (map (\<lambda>i. read_block (disk s) (IntKey i)) [lo..hi])
          in export_to_file s name =
               (Inr (), s\<lparr>files := (files s)(''./'' @ name := File image)\<rparr>)
             \<and> (list_all (\<lambda>(k, v). length v = 512) (disk s) \<longrightarrow>
                  length image = 512 * nat (hi - lo + 1)
                  \<and> (\<forall>N. lo \<le> N \<and> N \<le> hi \<longrightarrow>
                        take 512 (drop (512 * nat (N - lo)) image) =
                          read_block (disk s) (IntKey N)))))
    \<and> files (snd (export_to_file (run (initial_state (\<lambda>_. NoFile))
          [WriteBlock (IntKey 0) (replicate 512 0xAA),
           WriteBlock (IntKey 2) (replicate 512 0xBB)]) ''image'')) ''./image'' =
        File (replicate 512 0xAA @ replicate 512 0 @ replicate 512 0xBB)
    \<and> length (replicate 512 (0xAA :: byte) @ replicate 512 0 @ replicate 512 0xBB) = 1536"
proof -
  have 1: "disk s = [] \<longrightarrow>
      fst (export_to_file s name) =
        Inl (if files s (''./'' @ name) = Denied then OSError else IndexError)"
    using export_to_file_empty [of s name] export_to_file_denied [of s name] by simp
  have 2: "files s (''./'' @ name) \<noteq> Denied \<and> disk s \<noteq> []
         \<and> list_all is_int (map fst (disk s)) \<longrightarrow>
         (let lo = Min (key_val ` fst ` set (disk s));
              hi = Max (key_val ` fst ` set (disk s));
              image = concat (map (\<lambda>i. read_block (disk s) (IntKey i)) [lo..hi])
          in export_to_file s name =
               (Inr (), s\<lparr>files := (files s)(''./'' @ name := File image)\<rparr>)
             \<and> (list_all (\<lambda>(k, v). length v = 512) (disk s) \<longrightarrow>
                  length image = 512 * nat (hi - lo + 1)
                  \<and> (\<forall>N. lo \<le> N \<and> N \<le> hi \<longrightarrow>
                        take 512 (drop (512 * nat (N - lo)) image) =
                          read_block (disk s) (IntKey N))))"
    unfolding Let_def
    using export_to_file_int_keys [of s name] export_to_file_length export_to_file_blocks
    by blast
  have 3: "files (snd (export_to_file (run (initial_state (\<lambda>_. NoFile))
          [WriteBlock (IntKey 0) (replicate 512 0xAA),
           WriteBlock (IntKey 2) (replicate 512 0xBB)]) ''image'')) ''./image'' =
        File (replicate 512 0xAA @ replicate 512 0 @ replicate 512 0xBB)"
    unfolding example_export by simp
  have 4: "length (replicate 512 (0xAA :: byte) @ replicate 512 0 @ replicate 512 0xBB) = 1536"
    by simp
  show ?thesis
    using 1 2 3 4 by blast
qed

theorem export_to_file_image_witness:
  "(\<lambda>_. NoFile) (''./'' @ ''image'') \<noteq> Denied
   \<and> [(IntKey 0, replicate 512 (0xAA :: byte)), (IntKey 2, replicate 512 0xBB)] \<noteq> []
   \<and> list_all is_int (map fst [(IntKey 0, replicate 512 (0xAA :: byte)), (IntKey 2, replicate 512 0xBB)])
   \<and> list_all (\<lambda>(k, v). length v = 512)
        [(IntKey 0, replicate 512 (0xAA :: byte)), (IntKey 2, replicate 512 0xBB)]
   \<and> export_to_file
        \<lparr>disk = [(IntKey 0, replicate 512 0xAA), (IntKey 2, replicate 512 0xBB)],
         files = (\<lambda>_. NoFile), stdout = []\<rparr> ''image'' =
       (Inr (), \<lparr>disk = [(IntKey 0, replicate 512 0xAA), (IntKey 2, replicate 512 0xBB)],
         files = (\<lambda>_. NoFile)(''./image'' :=
           File (replicate 512 0xAA @ replicate 512 0 @ replicate 512 0xBB)),
         stdout = []\<rparr>)
   \<and> take 512 (drop (512 * nat (2 - 0))
         (replicate 512 (0xAA :: byte) @ replicate 512 0 @ replicate 512 0xBB)) =
       read_block [(IntKey 0, replicate 512 0xAA), (IntKey 2, replicate 512 0xBB)] (IntKey 2)"
proof -
  let ?d = "[(IntKey 0, replicate 512 (0xAA :: byte)), (IntKey 2, replicate 512 0xBB)]"
  let ?s = "\<lparr>disk = ?d, files = (\<lambda>_. NoFile), stdout = []\<rparr>"
  have h: "files ?s (''./'' @ ''image'') \<noteq> Denied"
    by simp
  have K: "key_val ` fst ` set (disk ?s) = {0, 2}"
    by simp
  have mm: "Min {0, 2 :: int} = 0" "Max {0, 2 :: int} = 2"
    by simp_all
  have g: "disk ?s \<noteq> [] \<and> list_all is_int (map fst (disk ?s))"
    by simp
  have b: "list_all (\<lambda>(k, v). length v = 512) (disk ?s)"
    by simp
  have "export_to_file ?s ''image'' =
      (Inr (), ?s\<lparr>files := (files ?s)(''./'' @ ''image'' := File
         (concat (map (\<lambda>i. read_block (disk ?s) (IntKey i)) [0..2])))\<rparr>)
    \<and> take 512 (drop (512 * nat (2 - 0))
         (concat (map (\<lambda>i. read_block (disk ?s) (IntKey i)) [0..2]))) =
       read_block (disk ?s) (IntKey 2)"
    using export_to_file_image [of ?s "''image''"] h g b
    unfolding Let_def K mm by (metis order_refl zero_le_numeral)
  then show ?thesis
    using example_image by simp
qed

subsection \<open>Dictionary export followed by import\<close>

lemma export_one_block:
  "run (initial_state (\<lambda>_. NoFile))
     [WriteBlock (IntKey 5) (replicate 512 0xAA), ExportAsDictionary ''d''] =
   \<lparr>disk = [(IntKey 5, replicate 512 0xAA)],
    files = (\<lambda>_. NoFile)(''./d'' := File ([0, 0, 0, 5] @ replicate 512 0xAA)),
    stdout = []\<rparr>"
proof -
  have "be_bytes 4 5 = [0, 0, 0, 5]" by code_simp
  then have "struct_pack_I (IntKey 5) = Inr [0, 0, 0, 5]"
    by (simp add: struct_pack_I_def)
  then show ?thesis
    by (simp add: run_def initial_state_def empty_disk_def write_block_def
        export_as_dictionary_def open_wb_def file_write_def)
qed

lemma import_one_block:
  "import_loop (0 # 0 # 0 # 5 # replicate 512 0xAA) [] =
     (Inl StructError, [(TupleKey 5, replicate 512 0xAA)])"
proof -
  have "be_int [0, 0, 0, 5] = 5" by (simp add: be_int_def)
  then have 1: "struct_unpack_I [0, 0, 0, 5] = Inr (TupleKey 5)"
    by (simp add: struct_unpack_I_def)
  have 2: "import_loop [] d = (Inl StructError, d)" for d
    by (subst import_loop.simps) (simp add: struct_unpack_I_def)
  show ?thesis
    by (subst import_loop.simps) (simp add: Let_def 1 2)
qed

text \<open>
  Claim C5 at a store of one block: address 5 holds 512 bytes 0xAA. The exported
  file is the record 00 00 00 05 followed by the block. Importing it into a fresh
  store ends in \<open>struct.error\<close>, and the store then holds the block under the
  tuple \<open>(5,)\<close>, not under 5: the mappings differ, and \<open>read_block(5)\<close> returns
  zeros instead of the block.
\<close>

theorem dictionary_round_trip_one_block:
  "(let s = run (initial_state (\<lambda>_. NoFile))
              [WriteBlock (IntKey 5) (replicate 512 0xAA), ExportAsDictionary ''d''];
        r = step (initial_state (files s)) (ImportFromDictionary ''d'')
    in files s ''./d'' = File ([0, 0, 0, 5] @ replicate 512 0xAA)
       \<and> disk s = [(IntKey 5, replicate 512 0xAA)]
       \<and> fst r = Inl StructError
       \<and> disk (snd r) = [(TupleKey 5, replicate 512 0xAA)]
       \<and> map_of (disk (snd r)) (IntKey 5) \<noteq> map_of (disk s) (IntKey 5)
       \<and> read_block (disk (snd r)) (IntKey 5) = replicate 512 0
       \<and> read_block (disk s) (IntKey 5) = replicate 512 0xAA)"
  unfolding export_one_block Let_def
  by (simp add: initial_state_def empty_disk_def import_from_dictionary_def open_rb_def
      import_one_block read_block_def)

text \<open>
  The same in general. Let every address of the store be an integer of the unsigned
  32-bit range and every block have 512 bytes. The export writes one record per
  entry, in the order of the dictionary.
\<close>

lemma export_items_records:
  assumes "list_all (\<lambda>(k, v). is_int k \<and> 0 \<le> key_val k \<and> key_val k < 2 ^ 32) d"
    and "f path = File c"
  shows "export_items f path d =
    (Inr (), f(path := File (c @ concat (map (\<lambda>(k, v). be_bytes 4 (key_val k) @ v) d))))"
  using assms
proof (induction d arbitrary: f c)
  case Nil
  then show ?case by (simp add: fun_upd_idem)
next
  case (Cons kv d)
  obtain k v where kv: "kv = (k, v)" by (cases kv)
  obtain i where k: "k = IntKey i" "0 \<le> i" "i < 2 ^ 32"
    using Cons.prems(1) kv by (cases k) simp_all
  let ?f = "file_write (file_write f path (be_bytes 4 i)) path v"
  have w: "?f path = File ((c @ be_bytes 4 i) @ v)"
    using Cons.prems(2) by (simp add: file_write_def del: be_bytes.simps)
  have "export_items ?f path d =
      (Inr (), ?f(path := File (((c @ be_bytes 4 i) @ v)
         @ concat (map (\<lambda>(k, v). be_bytes 4 (key_val k) @ v) d))))"
    using Cons.prems(1) w by (intro Cons.IH) simp_all
  moreover have "struct_pack_I k = Inr (be_bytes 4 i)"
    using k by (simp add: struct_pack_I_def del: be_bytes.simps)
  ultimately show ?case
    using Cons.prems(2) kv k(1)
    by (auto simp: file_write_def fun_upd_def simp del: be_bytes.simps)
qed

text \<open>
  The import stores every record under the tuple of its address and ends with
  \<open>struct.error\<close> when the records are used up.
\<close>

lemma import_loop_records:
  assumes "list_all (\<lambda>(k, v). 0 \<le> key_val k \<and> key_val k < 2 ^ 32 \<and> length v = 512) d"
  shows "import_loop (concat (map (\<lambda>(k, v). be_bytes 4 (key_val k) @ v) d)) acc =
    (Inl StructError, foldl (\<lambda>a (k, v). AList.update (TupleKey (key_val k)) v a) acc d)"
  using assms
proof (induction d arbitrary: acc)
  case Nil
  show ?case
    by (subst import_loop.simps) (simp add: struct_unpack_I_def)
next
  case (Cons kv d)
  obtain k v where kv: "kv = (k, v)" by (cases kv)
  let ?rest = "concat (map (\<lambda>(k, v). be_bytes 4 (key_val k) @ v) d)"
  let ?i = "key_val k"
  have i: "0 \<le> ?i" "?i < 2 ^ (8 * 4)" and v: "length v = 512"
    using Cons.prems kv by simp_all
  have t4: "take 4 (be_bytes 4 ?i @ v @ ?rest) = be_bytes 4 ?i"
    by (simp add: length_be_bytes del: be_bytes.simps)
  have d4: "drop 4 (be_bytes 4 ?i @ v @ ?rest) = v @ ?rest"
    by (simp add: length_be_bytes del: be_bytes.simps)
  have u: "struct_unpack_I (be_bytes 4 ?i) = Inr (TupleKey ?i)"
    using be_int_be_bytes [OF i] by (simp add: struct_unpack_I_def length_be_bytes del: be_bytes.simps)
  have t512: "take 512 (v @ ?rest) = v" and d512: "drop 512 (v @ ?rest) = ?rest"
    using v by simp_all
  have "import_loop (be_bytes 4 ?i @ v @ ?rest) acc =
      import_loop ?rest (AList.update (TupleKey ?i) v acc)"
    by (subst import_loop.simps) (simp only: Let_def t4 d4 t512 d512 u sum.case)
  also have "\<dots> = (Inl StructError,
      foldl (\<lambda>a (k, v). AList.update (TupleKey (key_val k)) v a)
        (AList.update (TupleKey ?i) v acc) d)"
    using Cons.prems by (intro Cons.IH) simp
  finally show ?case
    using kv by (simp del: be_bytes.simps)
qed

lemma update_new_key: "k \<notin> fst ` set al \<Longrightarrow> AList.update k v al = al @ [(k, v)]"
  by (induction al) auto

lemma foldl_update_new_keys:
  assumes "distinct (map (\<lambda>(k, v). key_val k) d)"
    and "\<forall>(k, v)\<in>set d. TupleKey (key_val k) \<notin> fst ` set acc"
  shows "foldl (\<lambda>a (k, v). AList.update (TupleKey (key_val k)) v a) acc d =
    acc @ map (\<lambda>(k, v). (TupleKey (key_val k), v)) d"
  using assms
proof (induction d arbitrary: acc)
  case Nil
  then show ?case by simp
next
  case (Cons kv d)
  obtain k v where kv: "kv = (k, v)" by (cases kv)
  have new: "TupleKey (key_val k) \<notin> fst ` set acc"
    using Cons.prems(2) kv by simp
  have "foldl (\<lambda>a (k, v). AList.update (TupleKey (key_val k)) v a)
      (acc @ [(TupleKey (key_val k), v)]) d =
      (acc @ [(TupleKey (key_val k), v)]) @ map (\<lambda>(k, v). (TupleKey (key_val k), v)) d"
  proof (rule Cons.IH)
    show "distinct (map (\<lambda>(k, v). key_val k) d)"
      using Cons.prems(1) by simp
    show "\<forall>(k', v')\<in>set d. TupleKey (key_val k') \<notin> fst ` set (acc @ [(TupleKey (key_val k), v)])"
      using Cons.prems kv by (auto simp: image_iff)
  qed
  then show ?case
    using kv by (simp add: update_new_key [OF new])
qed

text \<open>
  Hence the round trip through the dictionary file: the export succeeds, the import
  into a fresh store raises \<open>struct.error\<close>, and the imported store has every
  block under the tuple of its address, so no integer address has an entry.
\<close>

lemma dictionary_round_trip_general:
  assumes "list_all (\<lambda>(k, v). is_int k \<and> 0 \<le> key_val k \<and> key_val k < 2 ^ 32
             \<and> length v = 512) (disk s)"
    and "distinct (map fst (disk s))"
    and "files s (''./'' @ name) \<noteq> Denied"
  shows "fst (export_as_dictionary s name) = Inr ()"
    and "import_from_dictionary (initial_state (files (snd (export_as_dictionary s name)))) name =
      (Inl StructError,
       \<lparr>disk = map (\<lambda>(k, v). (TupleKey (key_val k), v)) (disk s),
        files = files (snd (export_as_dictionary s name)), stdout = []\<rparr>)"
proof -
  let ?path = "''./'' @ name"
  let ?recs = "concat (map (\<lambda>(k, v). be_bytes 4 (key_val k) @ v) (disk s))"
  let ?f = "(files s)(?path := File [])"
  have a: "list_all (\<lambda>(k, v). is_int k \<and> 0 \<le> key_val k \<and> key_val k < 2 ^ 32) (disk s)"
    using assms(1) by (auto simp: list_all_iff)
  have b: "list_all (\<lambda>(k, v). 0 \<le> key_val k \<and> key_val k < 2 ^ 32 \<and> length v = 512) (disk s)"
    using assms(1) by (auto simp: list_all_iff)
  have "export_items ?f ?path (disk s) = (Inr (), ?f(?path := File ([] @ ?recs)))"
    using a by (rule export_items_records) simp
  then have ex: "export_as_dictionary s name = (Inr (), s\<lparr>files := (files s)(?path := File ?recs)\<rparr>)"
    using open_wb_ok [of "files s" ?path, OF assms(3)]
    by (simp add: export_as_dictionary_def Let_def)
  show "fst (export_as_dictionary s name) = Inr ()"
    using ex by simp
  have inj: "distinct (map (\<lambda>(k, v). key_val k) (disk s))"
  proof -
    have "inj_on key_val (set (map fst (disk s)))"
    proof (rule inj_onI)
      fix x y
      assume "x \<in> set (map fst (disk s))" "y \<in> set (map fst (disk s))" "key_val x = key_val y"
      moreover have "\<forall>k\<in>set (map fst (disk s)). is_int k"
        using assms(1) by (auto simp: list_all_iff)
      ultimately have "is_int x" "is_int y" "key_val x = key_val y"
        by blast+
      then show "x = y"
        by (cases x; cases y) simp_all
    qed
    then have "distinct (map key_val (map fst (disk s)))"
      using assms(2) distinct_map [of key_val "map fst (disk s)"] by blast
    moreover have "(\<lambda>(k, v). key_val k) = key_val \<circ> (fst :: key \<times> bytes \<Rightarrow> key)"
      by (simp add: fun_eq_iff)
    ultimately show ?thesis by simp
  qed
  have "foldl (\<lambda>a (k, v). AList.update (TupleKey (key_val k)) v a) [] (disk s) =
      [] @ map (\<lambda>(k, v). (TupleKey (key_val k), v)) (disk s)"
    using inj by (rule foldl_update_new_keys) simp
  then have "import_loop ?recs [] =
      (Inl StructError, map (\<lambda>(k, v). (TupleKey (key_val k), v)) (disk s))"
    using import_loop_records [OF b, of "[]"] by simp
  then show "import_from_dictionary (initial_state (files (snd (export_as_dictionary s name)))) name =
      (Inl StructError,
       \<lparr>disk = map (\<lambda>(k, v). (TupleKey (key_val k), v)) (disk s),
        files = files (snd (export_as_dictionary s name)), stdout = []\<rparr>)"
    unfolding ex
    by (simp add: import_from_dictionary_def initial_state_def empty_disk_def open_rb_def)
qed

section \<open>The registers of the model\<close>

text \<open>
  The CID the class computes when it is loaded: 16 bytes, the first 0x41, the last
  with its low bit set.
\<close>

lemma SD_CID_value:
  "SD_CID = Inr [0x41, 0x34, 0x32, 0x53, 0x44, 0x43, 0x49, 0x54, 0x30, 0x12, 0x34, 0x56,
                 0x78, 0x01, 0x12, 0x57]"
  by code_simp

end
